theory Spec2Isabelle
  imports Main "HOL-Library.Char_ord" "HOL-Library.List_Lexorder" "HOL-Library.Sublist"
    "HOL-Library.Multiset"
begin

section \<open>The MP3 player of \<^verbatim>\<open>mp3.py\<close>\<close>

text \<open>
  The player of \<^verbatim>\<open>mp3.py\<close> keeps a playlist, a current index and a playback state, and
  drives pygame's mixer. The mixer, the file system and the console are outside the
  program. They are modelled by what the program does to them and what they answer:
  \<^item> every call to the mixer, every line printed, every entry to and exit from
    \<^verbatim>\<open>with self._lock\<close> and every assignment to \<^verbatim>\<open>self.current_index\<close> or to
    \<^verbatim>\<open>self.state\<close> is appended to a trace kept in the player state, in the order in
    which the program does them;
  \<^item> what the mixer answers during one operation is a parameter of that operation:
    which calls raise \<^verbatim>\<open>pygame.error\<close> and what \<^verbatim>\<open>get_busy()\<close> returns;
  \<^item> a directory is the list of the names of its entries, in the order the operating
    system yields them.
  A Python exception is a value: each operation returns \<open>Some e\<close> when it raises \<open>e\<close> and
  \<open>None\<close> when it returns normally, together with the state it leaves behind (what was
  assigned before the exception stays assigned).
\<close>

subsection \<open>Paths and the directory scan\<close>

text \<open>A \<^verbatim>\<open>pathlib.Path\<close> is the list of its components; \<^verbatim>\<open>Path.name\<close> is the last one.\<close>

type_synonym path = "string list"

definition path_name :: "path \<Rightarrow> string" where
  "path_name p = (if p = [] then [] else last p)"

text \<open>
  \<^verbatim>\<open>directory.glob("*.mp3")\<close> is pathlib's: it yields \<^verbatim>\<open>directory / name\<close> for every entry
  of the directory whose name ends in \<^verbatim>\<open>.mp3\<close> (the star matches any characters, none
  included; the match is case-sensitive as on POSIX), in the order of the listing.
\<close>

definition glob_mp3 :: "path \<Rightarrow> string list \<Rightarrow> path list" where
  "glob_mp3 directory entries =
     map (\<lambda>n. directory @ [n]) (filter (\<lambda>n. suffix ''.mp3'' n) entries)"

text \<open>
  \<^verbatim>\<open>sorted\<close> orders paths as pathlib compares them: component lists lexicographically,
  each component as a string, character by character.
\<close>

definition find_mp3_files :: "path \<Rightarrow> string list \<Rightarrow> path list" where
  "find_mp3_files directory entries = sort (glob_mp3 directory entries)"

subsection \<open>Mixer, trace and errors\<close>

datatype call = Init | Load path | Play | Pause | Unpause | Stop | Get_busy | Quit

datatype event =
    Acquire | Release | Mixer call | Print string
  | Set_current_index "int option" | Set_state string

datatype error = PygameError call | TypeError | IndexError | ZeroDivisionError

record mixer =
  raises :: "call \<Rightarrow> bool"
  busy :: bool

record player =
  tracks :: "path list"
  loop :: bool
  current_index :: "int option"
  state :: string
  stop_event :: bool
  trace :: "event list"

type_synonym action = "player \<Rightarrow> error option \<times> player"

definition emit :: "event \<Rightarrow> player \<Rightarrow> player" where
  "emit e p = p\<lparr>trace := trace p @ [e]\<rparr>"

definition ok :: action where
  "ok p = (None, p)"

definition raise :: "error \<Rightarrow> action" where
  "raise e p = (Some e, p)"

text \<open>Sequencing: the second action runs only when the first returned normally.\<close>

definition seq :: "action \<Rightarrow> action \<Rightarrow> action" where
  "seq a b p = (case a p of (Some e, p') \<Rightarrow> (Some e, p') | (None, p') \<Rightarrow> b p')"

definition print :: "string \<Rightarrow> action" where
  "print s p = (None, emit (Print s) p)"

text \<open>
  The assignments \<^verbatim>\<open>self.current_index = v\<close> and \<^verbatim>\<open>self.state = s\<close>: the field takes
  the value and the assignment is traced.
\<close>

definition set_current_index :: "int option \<Rightarrow> action" where
  "set_current_index v p = (None, emit (Set_current_index v) (p\<lparr>current_index := v\<rparr>))"

definition set_state :: "string \<Rightarrow> action" where
  "set_state s p = (None, emit (Set_state s) (p\<lparr>state := s\<rparr>))"

text \<open>A call to the mixer is issued (and traced), then it returns or raises.\<close>

definition mixer_call :: "mixer \<Rightarrow> call \<Rightarrow> action" where
  "mixer_call mx c p =
     ((if raises mx c then Some (PygameError c) else None), emit (Mixer c) p)"

text \<open>
  \<^verbatim>\<open>with self._lock: body\<close>: the lock is released on every way out of the body, a
  \<^verbatim>\<open>return\<close>, a \<^verbatim>\<open>continue\<close> and an exception alike.
\<close>

definition with_lock :: "action \<Rightarrow> action" where
  "with_lock body p = (case body (emit Acquire p) of (r, p') \<Rightarrow> (r, emit Release p'))"

text \<open>
  \<^verbatim>\<open>self.tracks[self.current_index]\<close>: Python counts a negative index from the end, raises
  \<^verbatim>\<open>IndexError\<close> out of range and \<^verbatim>\<open>TypeError\<close> when the index is \<^verbatim>\<open>None\<close>.
\<close>

definition getitem :: "'a list \<Rightarrow> int option \<Rightarrow> error + 'a" where
  "getitem xs idx =
     (case idx of
        None \<Rightarrow> Inl TypeError
      | Some i \<Rightarrow>
          if - int (length xs) \<le> i \<and> i < 0 then Inr (xs ! nat (int (length xs) + i))
          else if 0 \<le> i \<and> i < int (length xs) then Inr (xs ! nat i)
          else Inl IndexError)"

text \<open>\<^verbatim>\<open>str\<close> of an integer, as the f-strings format an index: decimal, with a minus sign.\<close>

fun str_nat :: "nat \<Rightarrow> string" where
  "str_nat n =
     (if n < 10 then [''0123456789'' ! n]
      else str_nat (n div 10) @ [''0123456789'' ! (n mod 10)])"

declare str_nat.simps [simp del]

definition str_int :: "int \<Rightarrow> string" where
  "str_int i = (if i < 0 then CHR ''-'' # str_nat (nat (- i)) else str_nat (nat i))"

subsection \<open>The operations of \<^verbatim>\<open>MP3Player\<close>\<close>

text \<open>
  \<^verbatim>\<open>__init__\<close>. Its two assignments to the index and the state come before the lock
  and the monitor thread exist. Starting the monitor thread has no effect on the fields;
  the thread's loop is \<open>monitor_playback\<close> below. When \<^verbatim>\<open>pygame.mixer.init()\<close> raises
  there is no player.
\<close>

definition init :: "mixer \<Rightarrow> path \<Rightarrow> string list \<Rightarrow> bool \<Rightarrow> error + player" where
  "init mx directory entries lp =
     (let ts = find_mp3_files directory entries;
          p = \<lparr>tracks = ts, loop = lp,
               current_index = (if ts \<noteq> [] then Some 0 else None),
               state = ''stopped'', stop_event = False,
               trace = [Set_current_index (if ts \<noteq> [] then Some 0 else None),
                        Set_state ''stopped'']\<rparr>
      in case mixer_call mx Init p of
           (Some e, _) \<Rightarrow> Inl e
         | (None, p') \<Rightarrow> Inr p')"

definition marker :: "player \<Rightarrow> int \<Rightarrow> string" where
  "marker p idx =
     (if Some idx = current_index p \<and> state p = ''playing'' then ''->'' else ''  '')"

definition list_tracks :: action where
  "list_tracks p =
     (if tracks p = [] then print ''No MP3 files found.'' p
      else (None,
        fold (\<lambda>(idx, track) q.
                emit (Print (marker q (int idx) @ '' ['' @ str_int (int idx) @ ''] ''
                             @ path_name track)) q)
             (enumerate 0 (tracks p)) p))"

text \<open>
  Lines 70 to 74 of \<^verbatim>\<open>play\<close> and the body of \<^verbatim>\<open>_play_current\<close> are the same five
  statements; each is written out where the source has it. In \<open>play\<close> they are
  \<open>start\<close>, which runs after the index, when one is given, has been checked and
  assigned; the emptiness check of lines 59 to 61 is outside the \<^verbatim>\<open>with\<close> block.
\<close>

definition play :: "mixer \<Rightarrow> int option \<Rightarrow> action" where
  "play mx index p =
     (if tracks p = [] then print ''Playlist is empty.'' p
      else with_lock (\<lambda>p.
        let start = (\<lambda>p.
              case getitem (tracks p) (current_index p) of
                Inl e \<Rightarrow> raise e p
              | Inr track \<Rightarrow>
                  seq (mixer_call mx (Load track))
                 (seq (mixer_call mx Play)
                 (seq (set_state ''playing'')
                      (print (''Playing: '' @ path_name track)))) p)
        in case index of
             None \<Rightarrow> start p
           | Some i \<Rightarrow>
               if i < 0 \<or> i \<ge> int (length (tracks p))
               then print (''Index '' @ str_int i @ '' out of range.'') p
               else seq (set_current_index (Some i)) start p) p)"

definition pause :: "mixer \<Rightarrow> action" where
  "pause mx = with_lock (\<lambda>p.
     if state p \<noteq> ''playing'' then print ''Nothing is currently playing.'' p
     else seq (mixer_call mx Pause)
         (seq (set_state ''paused'')
              (print ''Paused.'')) p)"

definition resume :: "mixer \<Rightarrow> action" where
  "resume mx = with_lock (\<lambda>p.
     if state p \<noteq> ''paused'' then print ''Player is not paused.'' p
     else seq (mixer_call mx Unpause)
         (seq (set_state ''playing'')
              (print ''Resumed.'')) p)"

definition stop :: "mixer \<Rightarrow> action" where
  "stop mx = with_lock
     (seq (mixer_call mx Stop)
     (seq (set_state ''stopped'')
          (print ''Stopped.'')))"

definition play_current :: "mixer \<Rightarrow> action" where
  "play_current mx p =
     (case getitem (tracks p) (current_index p) of
        Inl e \<Rightarrow> raise e p
      | Inr track \<Rightarrow>
          seq (mixer_call mx (Load track))
         (seq (mixer_call mx Play)
         (seq (set_state ''playing'')
              (print (''Playing: '' @ path_name track)))) p)"

text \<open>
  \<^verbatim>\<open>x % len(self.tracks)\<close> raises \<^verbatim>\<open>ZeroDivisionError\<close> on an empty playlist; otherwise
  Python's \<^verbatim>\<open>%\<close> with a positive modulus is \<open>mod\<close> on \<open>int\<close> (the result is never
  negative).
\<close>

definition set_index_mod :: "int \<Rightarrow> action" where
  "set_index_mod x p =
     (if tracks p = [] then raise ZeroDivisionError p
      else set_current_index (Some (x mod int (length (tracks p)))) p)"

definition next_track :: "mixer \<Rightarrow> action" where
  "next_track mx = with_lock (\<lambda>p.
     case current_index p of
       None \<Rightarrow> print ''No tracks available.'' p
     | Some i \<Rightarrow> seq (set_index_mod (i + 1)) (play_current mx) p)"

definition previous_track :: "mixer \<Rightarrow> action" where
  "previous_track mx = with_lock (\<lambda>p.
     case current_index p of
       None \<Rightarrow> print ''No tracks available.'' p
     | Some i \<Rightarrow> seq (set_index_mod (i - 1)) (play_current mx) p)"

definition status :: action where
  "status p =
     (case current_index p of
        None \<Rightarrow> print ''No track loaded.'' p
      | Some i \<Rightarrow>
          (case getitem (tracks p) (Some i) of
             Inl e \<Rightarrow> raise e p
           | Inr track \<Rightarrow>
               seq (print (''Track: '' @ path_name track))
                   (\<lambda>p. print (''State: '' @ state p) p) p))"

definition close :: "mixer \<Rightarrow> action" where
  "close mx =
     seq (\<lambda>p. ok (p\<lparr>stop_event := True\<rparr>))
    (seq (mixer_call mx Stop) (mixer_call mx Quit))"

subsection \<open>The monitor\<close>

text \<open>
  One pass through the body of the loop of \<^verbatim>\<open>_monitor_playback\<close>, after the sleep (the
  half second itself is not modelled). Each \<^verbatim>\<open>continue\<close> leaves the \<^verbatim>\<open>with\<close> block.
\<close>

definition monitor_cycle :: "mixer \<Rightarrow> action" where
  "monitor_cycle mx = with_lock (\<lambda>p.
     if state p \<noteq> ''playing'' then ok p
     else seq (mixer_call mx Get_busy) (\<lambda>p.
       if busy mx then ok p
       else case current_index p of
         None \<Rightarrow> ok p
       | Some i \<Rightarrow>
           if i = int (length (tracks p)) - 1 \<and> \<not> loop p
           then set_state ''stopped'' p
           else seq (set_index_mod (i + 1)) (play_current mx) p) p)"

text \<open>
  The loop itself. It runs until the stop event is set, which only another thread does,
  so it is given the mixer's answers for the cycles to come, one per cycle: the result
  is the state after those cycles, or at the cycle that raised, where the thread ends
  with the exception.
\<close>

fun monitor_playback :: "mixer list \<Rightarrow> action" where
  "monitor_playback [] p = (None, p)"
| "monitor_playback (mx # rest) p =
     (if stop_event p then (None, p)
      else case monitor_cycle mx p of
             (Some e, p') \<Rightarrow> (Some e, p')
           | (None, p') \<Rightarrow> monitor_playback rest p')"

subsection \<open>Predicates on states and traces\<close>

text \<open>
  The index invariant: there is no current index exactly when the playlist is empty,
  and a current index is a position in the playlist.
\<close>

definition index_ok :: "player \<Rightarrow> bool" where
  "index_ok p =
     (case current_index p of
        None \<Rightarrow> tracks p = []
      | Some i \<Rightarrow> 0 \<le> i \<and> i < int (length (tracks p)))"








subsection \<open>Example states\<close>

text \<open>A playlist of three tracks, a mixer that never fails, and one that cannot read
  \<^verbatim>\<open>b.mp3\<close>; all report the music as finished.\<close>

definition demo_player :: player where
  "demo_player =
     \<lparr>tracks = [[''music'', ''a.mp3''], [''music'', ''b.mp3''], [''music'', ''c.mp3'']],
      loop = False, current_index = Some 0, state = ''stopped'', stop_event = False,
      trace = []\<rparr>"

definition empty_player :: player where
  "empty_player =
     \<lparr>tracks = [], loop = False, current_index = None, state = ''stopped'',
      stop_event = False, trace = []\<rparr>"

definition quiet_mixer :: mixer where
  "quiet_mixer = \<lparr>raises = (\<lambda>c. False), busy = False\<rparr>"

definition unreadable_mixer :: mixer where
  "unreadable_mixer = \<lparr>raises = (\<lambda>c. c = Load [''music'', ''b.mp3'']), busy = False\<rparr>"

section \<open>Properties\<close>

lemmas action_defs =
  ok_def raise_def seq_def print_def mixer_call_def with_lock_def set_current_index_def
  set_state_def emit_def

lemmas step_defs =
  ok_def raise_def seq_def print_def mixer_call_def with_lock_def set_current_index_def
  set_state_def

lemma getitem_in_range:
  "0 \<le> i \<Longrightarrow> i < int (length xs) \<Longrightarrow> getitem xs (Some i) = Inr (xs ! nat i)"
  by (simp add: getitem_def)

lemma getitem_mod:
  assumes "xs \<noteq> []"
  shows "getitem xs (Some (x mod int (length xs))) = Inr (xs ! nat (x mod int (length xs)))"
proof -
  have "0 < int (length xs)" using assms by simp
  then have "0 \<le> x mod int (length xs)" and "x mod int (length xs) < int (length xs)"
    by simp_all
  then show ?thesis by (rule getitem_in_range)
qed

lemma snd_with_lock:
  "snd (with_lock body p) = emit Release (snd (body (emit Acquire p)))"
  by (simp add: with_lock_def split: prod.splits)

subsection \<open>Starting a track\<close>

lemma play_in_range:
  assumes "0 \<le> i" and "i < int (length (tracks p))"
    and "\<not> raises mx (Load (tracks p ! nat i))" and "\<not> raises mx Play"
  shows "play mx (Some i) p =
     (None, p\<lparr>current_index := Some i, state := ''playing'',
              trace := trace p @
                [Acquire, Set_current_index (Some i), Mixer (Load (tracks p ! nat i)),
                 Mixer Play, Set_state ''playing'',
                 Print (''Playing: '' @ path_name (tracks p ! nat i)), Release]\<rparr>)"
proof -
  from assms(1,2) have "tracks p \<noteq> []" by auto
  with assms show ?thesis by (simp add: play_def action_defs getitem_in_range)
qed

text \<open>
  C1. On a non-empty playlist of \<open>N\<close> tracks, \<open>play(i)\<close> with \<open>0 \<le> i < N\<close> sets
  \<open>current_index\<close> to \<open>i\<close>, sets the state to playing, and issues the mixer's load of
  track \<open>i\<close> followed by its play, under the lock, when the two mixer calls return
  normally. Nothing else changes but the line printed.
\<close>

theorem play_valid_index:
  assumes "tracks p \<noteq> []" and "0 \<le> i" and "i < int (length (tracks p))"
    and "\<not> raises mx (Load (tracks p ! nat i))" and "\<not> raises mx Play"
  shows "play mx (Some i) p =
     (None, p\<lparr>current_index := Some i, state := ''playing'',
              trace := trace p @
                [Acquire, Set_current_index (Some i), Mixer (Load (tracks p ! nat i)),
                 Mixer Play, Set_state ''playing'',
                 Print (''Playing: '' @ path_name (tracks p ! nat i)), Release]\<rparr>)"
  using assms(2-) by (rule play_in_range)

theorem play_valid_index_witness:
  "tracks demo_player \<noteq> [] \<and> (0::int) \<le> 2 \<and> 2 < int (length (tracks demo_player)) \<and>
   \<not> raises quiet_mixer (Load (tracks demo_player ! nat 2)) \<and> \<not> raises quiet_mixer Play \<and>
   play quiet_mixer (Some 2) demo_player =
     (None, demo_player\<lparr>current_index := Some 2, state := ''playing'',
              trace := [Acquire, Set_current_index (Some 2),
                        Mixer (Load [''music'', ''c.mp3'']), Mixer Play,
                        Set_state ''playing'', Print ''Playing: c.mp3'', Release]\<rparr>)"
  using play_valid_index [of demo_player 2 quiet_mixer]
  by (simp add: demo_player_def quiet_mixer_def path_name_def)

text \<open>
  C6, as the code has it. On a non-empty playlist, \<open>play(i)\<close> with \<open>i\<close> outside
  \<open>[0, N)\<close> prints the out-of-range line and changes nothing else: no field, no mixer
  call. On the empty playlist the emptiness check comes first: every \<open>play\<close> prints
  that the playlist is empty, without taking the lock, and changes nothing else.
\<close>

theorem play_out_of_range:
  "(tracks p \<noteq> [] \<and> (i < 0 \<or> int (length (tracks p)) \<le> i) \<longrightarrow>
      play mx (Some i) p =
        (None, p\<lparr>trace := trace p @
           [Acquire, Print (''Index '' @ str_int i @ '' out of range.''), Release]\<rparr>)) \<and>
   (tracks p = [] \<longrightarrow>
      play mx (Some i) p = (None, p\<lparr>trace := trace p @ [Print ''Playlist is empty.'']\<rparr>))"
  by (auto simp add: play_def action_defs)

theorem play_out_of_range_witness:
  "tracks demo_player \<noteq> [] \<and> int (length (tracks demo_player)) \<le> 3 \<and>
   play quiet_mixer (Some 3) demo_player =
     (None, demo_player\<lparr>trace := [Acquire, Print ''Index 3 out of range.'', Release]\<rparr>) \<and>
   tracks empty_player = [] \<and>
   play quiet_mixer (Some (- 1)) empty_player =
     (None, empty_player\<lparr>trace := [Print ''Playlist is empty.'']\<rparr>)"
  using play_out_of_range [of demo_player 3 quiet_mixer]
    play_out_of_range [of empty_player "- 1" quiet_mixer]
  by (simp add: demo_player_def empty_player_def str_int_def str_nat.simps)

text \<open>
  The claim C6 as stated fails on the empty playlist: \<open>0\<close> is outside \<open>[0, 0)\<close>, and
  \<open>play(0)\<close> reports the empty playlist, not an index out of range.
\<close>

theorem play_out_of_range_counterexample:
  "play quiet_mixer (Some 0) empty_player =
     (None, empty_player\<lparr>trace := [Print ''Playlist is empty.'']\<rparr>) \<and>
   Print (''Index '' @ str_int 0 @ '' out of range.'')
     \<notin> set (trace (snd (play quiet_mixer (Some 0) empty_player)))"
  by (simp add: play_def action_defs empty_player_def)

subsection \<open>Pause and resume\<close>

text \<open>
  C7. \<open>pause()\<close> in a state other than playing prints its message and changes nothing
  else (no field, no mixer call); in the playing state it issues the mixer's pause and
  sets the state to paused. \<open>resume()\<close> is the same with paused and playing exchanged
  and the mixer's unpause. So either changes the state only from the one state it
  requires.
\<close>

theorem pause_resume_guarded:
  "(state p \<noteq> ''playing'' \<longrightarrow>
      pause mx p = (None, p\<lparr>trace := trace p @
         [Acquire, Print ''Nothing is currently playing.'', Release]\<rparr>)) \<and>
   (state p = ''playing'' \<and> \<not> raises mx Pause \<longrightarrow>
      pause mx p = (None, p\<lparr>state := ''paused'', trace := trace p @
         [Acquire, Mixer Pause, Set_state ''paused'', Print ''Paused.'', Release]\<rparr>)) \<and>
   (state (snd (pause mx p)) \<noteq> state p \<longrightarrow> state p = ''playing'') \<and>
   (state p \<noteq> ''paused'' \<longrightarrow>
      resume mx p = (None, p\<lparr>trace := trace p @
         [Acquire, Print ''Player is not paused.'', Release]\<rparr>)) \<and>
   (state p = ''paused'' \<and> \<not> raises mx Unpause \<longrightarrow>
      resume mx p = (None, p\<lparr>state := ''playing'', trace := trace p @
         [Acquire, Mixer Unpause, Set_state ''playing'', Print ''Resumed.'', Release]\<rparr>)) \<and>
   (state (snd (resume mx p)) \<noteq> state p \<longrightarrow> state p = ''paused'')"
  by (simp add: pause_def resume_def action_defs)

theorem pause_resume_guarded_witness:
  "state demo_player \<noteq> ''playing'' \<and>
   pause quiet_mixer demo_player =
     (None, demo_player\<lparr>trace := [Acquire, Print ''Nothing is currently playing.'', Release]\<rparr>) \<and>
   state demo_player \<noteq> ''paused'' \<and>
   resume quiet_mixer demo_player =
     (None, demo_player\<lparr>trace := [Acquire, Print ''Player is not paused.'', Release]\<rparr>) \<and>
   pause quiet_mixer (demo_player\<lparr>state := ''playing''\<rparr>) =
     (None, demo_player\<lparr>state := ''paused'',
        trace := [Acquire, Mixer Pause, Set_state ''paused'', Print ''Paused.'', Release]\<rparr>) \<and>
   resume quiet_mixer (demo_player\<lparr>state := ''paused''\<rparr>) =
     (None, demo_player\<lparr>state := ''playing'',
        trace := [Acquire, Mixer Unpause, Set_state ''playing'', Print ''Resumed.'', Release]\<rparr>)"
proof -
  have idle: "state demo_player \<noteq> ''playing''" "state demo_player \<noteq> ''paused''"
    and fresh: "trace demo_player = []"
    by (simp_all add: demo_player_def)
  have playing: "state (demo_player\<lparr>state := ''playing''\<rparr>) = ''playing''"
    and paused: "state (demo_player\<lparr>state := ''paused''\<rparr>) = ''paused''"
    by simp_all
  have fine: "\<not> raises quiet_mixer Pause" "\<not> raises quiet_mixer Unpause"
    by (simp_all add: quiet_mixer_def)
  have "pause quiet_mixer demo_player =
      (None, demo_player\<lparr>trace := trace demo_player @
         [Acquire, Print ''Nothing is currently playing.'', Release]\<rparr>)"
    and "resume quiet_mixer demo_player =
      (None, demo_player\<lparr>trace := trace demo_player @
         [Acquire, Print ''Player is not paused.'', Release]\<rparr>)"
    using idle pause_resume_guarded [of demo_player quiet_mixer] by blast+
  moreover have "pause quiet_mixer (demo_player\<lparr>state := ''playing''\<rparr>) =
      (None, demo_player\<lparr>state := ''playing''\<rparr>\<lparr>state := ''paused'',
         trace := trace (demo_player\<lparr>state := ''playing''\<rparr>) @
           [Acquire, Mixer Pause, Set_state ''paused'', Print ''Paused.'', Release]\<rparr>)"
    using playing fine
      pause_resume_guarded [of "demo_player\<lparr>state := ''playing''\<rparr>" quiet_mixer]
    by blast
  moreover have "resume quiet_mixer (demo_player\<lparr>state := ''paused''\<rparr>) =
      (None, demo_player\<lparr>state := ''paused''\<rparr>\<lparr>state := ''playing'',
         trace := trace (demo_player\<lparr>state := ''paused''\<rparr>) @
           [Acquire, Mixer Unpause, Set_state ''playing'', Print ''Resumed.'', Release]\<rparr>)"
    using paused fine
      pause_resume_guarded [of "demo_player\<lparr>state := ''paused''\<rparr>" quiet_mixer]
    by blast
  ultimately show ?thesis using idle by (simp add: fresh)
qed

subsection \<open>The monitor at the end of a track\<close>

text \<open>
  C2. In the playing state, at the last index and without loop, a monitor cycle that
  finds the mixer not busy sets the state to stopped and leaves the index as it is;
  the busy query is the only call to the mixer in that cycle.
\<close>

theorem monitor_stops_at_end:
  assumes "state p = ''playing''"
    and "current_index p = Some (int (length (tracks p)) - 1)"
    and "\<not> loop p"
    and "\<not> raises mx Get_busy" and "\<not> busy mx"
  shows "monitor_cycle mx p =
     (None, p\<lparr>state := ''stopped'', trace := trace p @ [Acquire, Mixer Get_busy, Set_state ''stopped'', Release]\<rparr>)"
  using assms by (simp add: monitor_cycle_def action_defs)

theorem monitor_stops_at_end_witness:
  "monitor_cycle quiet_mixer (demo_player\<lparr>current_index := Some 2, state := ''playing''\<rparr>) =
     (None, demo_player\<lparr>current_index := Some 2, state := ''stopped'',
        trace := [Acquire, Mixer Get_busy, Set_state ''stopped'', Release]\<rparr>)"
  using monitor_stops_at_end
    [of "demo_player\<lparr>current_index := Some 2, state := ''playing''\<rparr>" quiet_mixer]
  by (simp add: demo_player_def quiet_mixer_def)

text \<open>
  C3. In the playing state, with a current index \<open>i\<close> that is before the last one or
  with loop set, a monitor cycle that finds the mixer not busy sets the index to
  \<open>(i + 1) mod N\<close>, issues the mixer's load and play of that track and leaves the state
  playing, when the two calls return normally; from the last index (with loop) the new
  index is \<open>0\<close>.
\<close>

theorem monitor_advances:
  assumes "state p = ''playing''" and "current_index p = Some i" and "tracks p \<noteq> []"
    and "i < int (length (tracks p)) - 1 \<or> loop p"
    and "\<not> raises mx Get_busy" and "\<not> busy mx"
    and "\<not> raises mx (Load (tracks p ! nat ((i + 1) mod int (length (tracks p)))))"
    and "\<not> raises mx Play"
  shows "monitor_cycle mx p =
     (None, p\<lparr>current_index := Some ((i + 1) mod int (length (tracks p))),
              state := ''playing'',
              trace := trace p @
                [Acquire, Mixer Get_busy,
                 Set_current_index (Some ((i + 1) mod int (length (tracks p)))),
                 Mixer (Load (tracks p ! nat ((i + 1) mod int (length (tracks p))))),
                 Mixer Play, Set_state ''playing'',
                 Print (''Playing: '' @
                        path_name (tracks p ! nat ((i + 1) mod int (length (tracks p))))),
                 Release]\<rparr>) \<and>
    (i = int (length (tracks p)) - 1 \<longrightarrow>
       current_index (snd (monitor_cycle mx p)) = Some 0)"
proof -
  let ?n = "int (length (tracks p))"
  have step: "monitor_cycle mx p =
     (None, p\<lparr>current_index := Some ((i + 1) mod ?n), state := ''playing'',
              trace := trace p @
                [Acquire, Mixer Get_busy, Set_current_index (Some ((i + 1) mod ?n)),
                 Mixer (Load (tracks p ! nat ((i + 1) mod ?n))),
                 Mixer Play, Set_state ''playing'',
                 Print (''Playing: '' @ path_name (tracks p ! nat ((i + 1) mod ?n))),
                 Release]\<rparr>)"
    using assms
    by (auto simp add: monitor_cycle_def play_current_def set_index_mod_def action_defs
        getitem_mod)
  have "i = ?n - 1 \<Longrightarrow> (i + 1) mod ?n = 0" by simp
  with step show ?thesis by simp
qed

theorem monitor_advances_witness:
  "monitor_cycle quiet_mixer (demo_player\<lparr>state := ''playing''\<rparr>) =
     (None, demo_player\<lparr>current_index := Some 1, state := ''playing'',
        trace := [Acquire, Mixer Get_busy, Set_current_index (Some 1),
                  Mixer (Load [''music'', ''b.mp3'']), Mixer Play, Set_state ''playing'',
                  Print ''Playing: b.mp3'', Release]\<rparr>) \<and>
   monitor_cycle quiet_mixer
       (demo_player\<lparr>loop := True, current_index := Some 2, state := ''playing''\<rparr>) =
     (None, demo_player\<lparr>loop := True, current_index := Some 0, state := ''playing'',
        trace := [Acquire, Mixer Get_busy, Set_current_index (Some 0),
                  Mixer (Load [''music'', ''a.mp3'']), Mixer Play, Set_state ''playing'',
                  Print ''Playing: a.mp3'', Release]\<rparr>)"
  using monitor_advances [of "demo_player\<lparr>state := ''playing''\<rparr>" 0 quiet_mixer]
    monitor_advances
      [of "demo_player\<lparr>loop := True, current_index := Some 2, state := ''playing''\<rparr>" 2
          quiet_mixer]
  by (simp add: demo_player_def quiet_mixer_def path_name_def)

subsection \<open>A failing start in the monitor\<close>

lemma monitor_playback_raises:
  assumes "\<not> stop_event p" and "monitor_cycle mx p = (Some e, p')"
  shows "monitor_playback (mx # rest) p = (Some e, p')"
  using assms by simp

lemma monitor_cycle_start_fails:
  assumes "state p = ''playing''" and "current_index p = Some i" and "tracks p \<noteq> []"
    and "i \<noteq> int (length (tracks p)) - 1 \<or> loop p"
    and "\<not> raises mx Get_busy" and "\<not> busy mx"
    and "raises mx (Load (tracks p ! nat ((i + 1) mod int (length (tracks p))))) \<or>
         raises mx Play"
  shows "monitor_cycle mx p =
     (Some (PygameError
        (if raises mx (Load (tracks p ! nat ((i + 1) mod int (length (tracks p)))))
         then Load (tracks p ! nat ((i + 1) mod int (length (tracks p)))) else Play)),
      p\<lparr>current_index := Some ((i + 1) mod int (length (tracks p))),
        trace := trace p @
          [Acquire, Mixer Get_busy,
           Set_current_index (Some ((i + 1) mod int (length (tracks p)))),
           Mixer (Load (tracks p ! nat ((i + 1) mod int (length (tracks p)))))] @
          (if raises mx (Load (tracks p ! nat ((i + 1) mod int (length (tracks p)))))
           then [] else [Mixer Play]) @
          [Release]\<rparr>)"
  using assms
  by (auto simp add: monitor_cycle_def play_current_def set_index_mod_def action_defs
      getitem_mod)

text \<open>
  C4, as the code has it. \<^verbatim>\<open>_monitor_playback\<close> has no exception handler. When the load
  or the play of the next track raises inside \<^verbatim>\<open>_play_current\<close>, the program neither
  catches the exception nor prints a line of its own; the lock is released, and the
  exception leaves the loop: the thread ends at that cycle, whatever cycles would have
  followed. The index has already advanced and the state is still playing. The trace
  holds what \<^verbatim>\<open>mp3.py\<close> prints; what the Python runtime writes about an exception that
  leaves a thread is outside the program and not in the trace.
\<close>

theorem monitor_failure_propagates:
  assumes "\<not> stop_event p"
    and "state p = ''playing''" and "current_index p = Some i" and "tracks p \<noteq> []"
    and "i \<noteq> int (length (tracks p)) - 1 \<or> loop p"
    and "\<not> raises mx Get_busy" and "\<not> busy mx"
    and "raises mx (Load (tracks p ! nat ((i + 1) mod int (length (tracks p))))) \<or>
         raises mx Play"
  shows "monitor_playback (mx # rest) p =
     (Some (PygameError
        (if raises mx (Load (tracks p ! nat ((i + 1) mod int (length (tracks p)))))
         then Load (tracks p ! nat ((i + 1) mod int (length (tracks p)))) else Play)),
      p\<lparr>current_index := Some ((i + 1) mod int (length (tracks p))),
        trace := trace p @
          [Acquire, Mixer Get_busy,
           Set_current_index (Some ((i + 1) mod int (length (tracks p)))),
           Mixer (Load (tracks p ! nat ((i + 1) mod int (length (tracks p)))))] @
          (if raises mx (Load (tracks p ! nat ((i + 1) mod int (length (tracks p)))))
           then [] else [Mixer Play]) @
          [Release]\<rparr>)"
  using assms(1) monitor_cycle_start_fails [OF assms(2-)]
  by (rule monitor_playback_raises)

theorem monitor_failure_propagates_witness:
  "\<not> stop_event demo_player \<and>
   monitor_playback [unreadable_mixer, quiet_mixer] (demo_player\<lparr>state := ''playing''\<rparr>) =
     (Some (PygameError (Load [''music'', ''b.mp3''])),
      demo_player\<lparr>state := ''playing'', current_index := Some 1,
        trace := [Acquire, Mixer Get_busy, Set_current_index (Some 1),
                  Mixer (Load [''music'', ''b.mp3'']), Release]\<rparr>)"
proof -
  let ?p = "demo_player\<lparr>state := ''playing''\<rparr>"
  have h: "\<not> stop_event ?p" "state ?p = ''playing''" "current_index ?p = Some 0"
    "tracks ?p \<noteq> []" "0 \<noteq> int (length (tracks ?p)) - 1 \<or> loop ?p"
    "\<not> raises unreadable_mixer Get_busy" "\<not> busy unreadable_mixer"
    "raises unreadable_mixer (Load (tracks ?p ! nat ((0 + 1) mod int (length (tracks ?p))))) \<or>
     raises unreadable_mixer Play"
    by (simp_all add: demo_player_def unreadable_mixer_def)
  show ?thesis
    using monitor_failure_propagates [OF h, of "[quiet_mixer]"]
    by (simp add: demo_player_def unreadable_mixer_def)
qed

text \<open>
  The claim C4 as stated fails when \<^verbatim>\<open>b.mp3\<close> cannot be loaded: the first cycle raises
  and the loop does not continue: the second cycle, whose mixer would have worked, never
  runs, and the thread has ended with the exception.
\<close>

theorem monitor_failure_counterexample:
  "monitor_playback [unreadable_mixer, quiet_mixer] (demo_player\<lparr>state := ''playing''\<rparr>) =
     (Some (PygameError (Load [''music'', ''b.mp3''])),
      demo_player\<lparr>state := ''playing'', current_index := Some 1,
        trace := [Acquire, Mixer Get_busy, Set_current_index (Some 1),
                  Mixer (Load [''music'', ''b.mp3'']), Release]\<rparr>)"
  by (simp add: monitor_cycle_def play_current_def set_index_mod_def action_defs getitem_def
      demo_player_def unreadable_mixer_def quiet_mixer_def)

subsection \<open>The index invariant\<close>

lemma index_ok_iff:
  "index_ok p \<longleftrightarrow>
     ((current_index p = None) = (tracks p = [])) \<and>
     (\<forall>i. current_index p = Some i \<longrightarrow> 0 \<le> i \<and> i < int (length (tracks p)))"
  by (auto simp add: index_ok_def split: option.splits)

lemma index_ok_update [simp]:
  "index_ok (p\<lparr>trace := t\<rparr>) = index_ok p"
  "index_ok (p\<lparr>state := s\<rparr>) = index_ok p"
  "index_ok (p\<lparr>stop_event := b\<rparr>) = index_ok p"
  by (simp_all add: index_ok_def split: option.splits)

lemma index_ok_emit [simp]: "index_ok (emit e p) = index_ok p"
  by (simp add: emit_def)

lemma index_ok_index:
  "0 \<le> i \<Longrightarrow> i < int (length (tracks p)) \<Longrightarrow> index_ok (p\<lparr>current_index := Some i\<rparr>)"
  by (simp add: index_ok_def)

lemma index_ok_init: "init mx directory entries lp = Inr p \<Longrightarrow> index_ok p"
  by (auto simp add: init_def index_ok_def action_defs Let_def split: if_splits)

lemma index_ok_play_current:
  "index_ok p \<Longrightarrow> index_ok (snd (play_current mx p))"
  by (simp add: play_current_def step_defs split: sum.splits)

lemma index_ok_set_index_mod:
  "index_ok p \<Longrightarrow> index_ok (snd (set_index_mod x p))"
  by (simp add: set_index_mod_def step_defs index_ok_index)

lemma index_ok_seq:
  assumes "\<And>q. index_ok q \<Longrightarrow> index_ok (snd (a q))"
    and "\<And>q. index_ok q \<Longrightarrow> index_ok (snd (b q))"
    and "index_ok p"
  shows "index_ok (snd (seq a b p))"
proof (cases "a p")
  case (Pair r p')
  with assms(1) [OF assms(3)] have "index_ok p'" by simp
  with Pair assms(2) show ?thesis by (cases r) (simp_all add: seq_def)
qed

lemma index_ok_with_lock:
  assumes "\<And>q. index_ok q \<Longrightarrow> index_ok (snd (body q))" and "index_ok p"
  shows "index_ok (snd (with_lock body p))"
proof -
  have "index_ok (emit Acquire p)" using assms(2) by simp
  then have "index_ok (snd (body (emit Acquire p)))" by (rule assms(1))
  then show ?thesis
    by (cases "body (emit Acquire p)") (simp add: with_lock_def)
qed

lemma index_ok_advance:
  "index_ok p \<Longrightarrow> index_ok (snd (seq (set_index_mod x) (play_current mx) p))"
  by (rule index_ok_seq) (simp_all add: index_ok_set_index_mod index_ok_play_current)

lemma index_ok_play: "index_ok p \<Longrightarrow> index_ok (snd (play mx idx p))"
  by (simp add: play_def step_defs index_ok_index split: sum.splits option.splits)

lemma index_ok_pause: "index_ok p \<Longrightarrow> index_ok (snd (pause mx p))"
  by (simp add: pause_def step_defs)

lemma index_ok_resume: "index_ok p \<Longrightarrow> index_ok (snd (resume mx p))"
  by (simp add: resume_def step_defs)

lemma index_ok_stop: "index_ok p \<Longrightarrow> index_ok (snd (stop mx p))"
  by (simp add: stop_def step_defs)

lemma index_ok_close: "index_ok p \<Longrightarrow> index_ok (snd (close mx p))"
  by (simp add: close_def step_defs)

lemma index_ok_status: "index_ok p \<Longrightarrow> index_ok (snd (status p))"
  by (simp add: status_def step_defs split: sum.splits option.splits)

lemma index_ok_next_track: "index_ok p \<Longrightarrow> index_ok (snd (next_track mx p))"
  unfolding next_track_def
  by (rule index_ok_with_lock) (simp_all add: index_ok_advance print_def split: option.splits)

lemma index_ok_previous_track: "index_ok p \<Longrightarrow> index_ok (snd (previous_track mx p))"
  unfolding previous_track_def
  by (rule index_ok_with_lock)
(simp_all add: index_ok_advance print_def split: option.splits)

lemma index_ok_monitor_cycle: "index_ok p \<Longrightarrow> index_ok (snd (monitor_cycle mx p))"
  unfolding monitor_cycle_def
proof (rule index_ok_with_lock)
  fix q assume q: "index_ok q"
  show "index_ok (snd (if state q \<noteq> ''playing'' then ok q
           else seq (mixer_call mx Get_busy)
            (\<lambda>p. if busy mx then ok p
              else case current_index p of None \<Rightarrow> ok p
                | Some i \<Rightarrow>
                    if i = int (length (tracks p)) - 1 \<and> \<not> loop p
                    then set_state ''stopped'' p
                    else seq (set_index_mod (i + 1)) (play_current mx) p) q))"
  proof (cases "state q \<noteq> ''playing''")
    case True
    with q show ?thesis by (simp add: ok_def)
  next
    case False
    have "index_ok (snd (seq (mixer_call mx Get_busy)
            (\<lambda>p. if busy mx then ok p
              else case current_index p of None \<Rightarrow> ok p
                | Some i \<Rightarrow>
                    if i = int (length (tracks p)) - 1 \<and> \<not> loop p
                    then set_state ''stopped'' p
                    else seq (set_index_mod (i + 1)) (play_current mx) p) q))"
    proof (rule index_ok_seq [OF _ _ q])
      fix r assume "index_ok r"
      then show "index_ok (snd (mixer_call mx Get_busy r))"
        by (simp add: mixer_call_def)
    next
      fix r assume r: "index_ok r"
      then show "index_ok (snd (if busy mx then ok r
              else case current_index r of None \<Rightarrow> ok r
                | Some i \<Rightarrow>
                    if i = int (length (tracks r)) - 1 \<and> \<not> loop r
                    then set_state ''stopped'' r
                    else seq (set_index_mod (i + 1)) (play_current mx) r))"
        by (simp add: ok_def set_state_def index_ok_advance split: option.splits)
    qed
    with False show ?thesis by simp
  qed
qed

lemma index_ok_monitor_playback:
  "index_ok p \<Longrightarrow> index_ok (snd (monitor_playback mxs p))"
proof (induction mxs arbitrary: p)
  case Nil
  then show ?case by simp
next
  case (Cons mx rest)
  from Cons.prems have c: "index_ok (snd (monitor_cycle mx p))"
    by (rule index_ok_monitor_cycle)
  show ?case
  proof (cases "monitor_cycle mx p")
    case (Pair r p')
    with c have "index_ok p'" by simp
    with Pair Cons.IH [of p'] Cons.prems show ?thesis by (cases r) simp_all
  qed
qed

lemma index_ok_fold:
  assumes "\<And>x q. index_ok (g x q) = index_ok q"
  shows "index_ok (fold g xs p) = index_ok p"
  by (induction xs arbitrary: p) (simp_all add: assms)

lemma index_ok_list_tracks: "index_ok p \<Longrightarrow> index_ok (snd (list_tracks p))"
  by (simp add: list_tracks_def print_def index_ok_fold split_def)

text \<open>
  C5. The index invariant holds for the player \<^verbatim>\<open>__init__\<close> builds, and every operation
  keeps it, however the mixer answers and whether the operation returns or raises:
  \<open>play\<close>, \<open>pause\<close>, \<open>resume\<close>, \<open>stop\<close>, \<open>next_track\<close>, \<open>previous_track\<close>,
  \<open>list_tracks\<close>, \<open>status\<close>, \<open>close\<close>, one monitor cycle, and any number of
  monitor cycles.
\<close>

theorem current_index_invariant:
  "(init mx directory entries lp = Inr p0 \<longrightarrow> index_ok p0) \<and>
   (index_ok p \<longrightarrow>
      index_ok (snd (play mx idx p)) \<and>
      index_ok (snd (pause mx p)) \<and>
      index_ok (snd (resume mx p)) \<and>
      index_ok (snd (stop mx p)) \<and>
      index_ok (snd (next_track mx p)) \<and>
      index_ok (snd (previous_track mx p)) \<and>
      index_ok (snd (list_tracks p)) \<and>
      index_ok (snd (status p)) \<and>
      index_ok (snd (close mx p)) \<and>
      index_ok (snd (monitor_cycle mx p)) \<and>
      index_ok (snd (monitor_playback mxs p)))"
  by (simp add: index_ok_init index_ok_play index_ok_pause index_ok_resume index_ok_stop
      index_ok_next_track index_ok_previous_track index_ok_list_tracks index_ok_status
      index_ok_close index_ok_monitor_cycle index_ok_monitor_playback)

theorem current_index_invariant_witness:
  "init quiet_mixer [''music''] [''b.mp3'', ''a.mp3''] True =
     Inr \<lparr>tracks = [[''music'', ''a.mp3''], [''music'', ''b.mp3'']], loop = True,
          current_index = Some 0, state = ''stopped'', stop_event = False,
          trace = [Set_current_index (Some 0), Set_state ''stopped'', Mixer Init]\<rparr> \<and>
   index_ok \<lparr>tracks = [[''music'', ''a.mp3''], [''music'', ''b.mp3'']], loop = True,
          current_index = Some 0, state = ''stopped'', stop_event = False,
          trace = [Set_current_index (Some 0), Set_state ''stopped'', Mixer Init]\<rparr> \<and>
   index_ok demo_player \<and>
   index_ok (snd (previous_track quiet_mixer demo_player)) \<and>
   index_ok (snd (monitor_playback [quiet_mixer, unreadable_mixer] demo_player))"
proof -
  have built: "init quiet_mixer [''music''] [''b.mp3'', ''a.mp3''] True =
     Inr \<lparr>tracks = [[''music'', ''a.mp3''], [''music'', ''b.mp3'']], loop = True,
          current_index = Some 0, state = ''stopped'', stop_event = False,
          trace = [Set_current_index (Some 0), Set_state ''stopped'', Mixer Init]\<rparr>"
    by (simp add: init_def find_mp3_files_def glob_mp3_def suffix_to_prefix mixer_call_def
        emit_def quiet_mixer_def)
  have start: "index_ok demo_player"
    by (simp add: index_ok_def demo_player_def)
  from built start
    current_index_invariant [where mx = quiet_mixer and directory = "[''music'']"
      and entries = "[''b.mp3'', ''a.mp3'']" and lp = True and p = demo_player
      and mxs = "[quiet_mixer, unreadable_mixer]"]
  show ?thesis by blast
qed

subsection \<open>Next and previous\<close>

lemma play_current_fields:
  "current_index (snd (play_current mx p)) = current_index p \<and>
   tracks (snd (play_current mx p)) = tracks p"
  by (simp add: play_current_def step_defs emit_def split: sum.splits)

lemma advance_fields:
  assumes "tracks q \<noteq> []"
  shows "current_index (snd (seq (set_index_mod x) (play_current mx) q)) =
           Some (x mod int (length (tracks q)))"
    and "tracks (snd (seq (set_index_mod x) (play_current mx) q)) = tracks q"
  using assms
  by (simp_all add: seq_def set_index_mod_def set_current_index_def emit_def
      play_current_fields)

lemma next_track_index:
  assumes "current_index p = Some i" and "tracks p \<noteq> []"
  shows "current_index (snd (next_track mx p)) = Some ((i + 1) mod int (length (tracks p)))"
    and "tracks (snd (next_track mx p)) = tracks p"
  using assms by (simp_all add: next_track_def snd_with_lock emit_def advance_fields)

lemma previous_track_index:
  assumes "current_index p = Some i" and "tracks p \<noteq> []"
  shows "current_index (snd (previous_track mx p)) = Some ((i - 1) mod int (length (tracks p)))"
    and "tracks (snd (previous_track mx p)) = tracks p"
  using assms by (simp_all add: previous_track_def snd_with_lock emit_def advance_fields)

text \<open>
  C8. On a playlist of more than one track, from any current index in \<open>[0, N)\<close>,
  \<open>next_track\<close> followed by \<open>previous_track\<close> leaves the current index where it was,
  and so does \<open>previous_track\<close> followed by \<open>next_track\<close>, whatever the mixer answers.
\<close>

theorem next_previous_inverse:
  assumes "1 < length (tracks p)" and "current_index p = Some i"
    and "0 \<le> i" and "i < int (length (tracks p))"
  shows "current_index (snd (previous_track mx' (snd (next_track mx p)))) = Some i \<and>
         current_index (snd (next_track mx' (snd (previous_track mx p)))) = Some i"
proof -
  let ?n = "int (length (tracks p))"
  from assms(1) have ne: "tracks p \<noteq> []" by auto
  have retreat: "((i + 1) mod ?n - 1) mod ?n = i" and advance: "((i - 1) mod ?n + 1) mod ?n = i"
    using assms(3,4) by (simp_all add: mod_diff_left_eq mod_add_left_eq)
  note nx = next_track_index [OF assms(2) ne, of mx]
  note pv = previous_track_index [OF assms(2) ne, of mx]
  from nx(2) ne have ne1: "tracks (snd (next_track mx p)) \<noteq> []" by simp
  from pv(2) ne have ne2: "tracks (snd (previous_track mx p)) \<noteq> []" by simp
  from previous_track_index(1) [OF nx(1) ne1, of mx'] retreat nx(2)
  have "current_index (snd (previous_track mx' (snd (next_track mx p)))) = Some i" by simp
  moreover from next_track_index(1) [OF pv(1) ne2, of mx'] advance pv(2)
  have "current_index (snd (next_track mx' (snd (previous_track mx p)))) = Some i" by simp
  ultimately show ?thesis by simp
qed

theorem next_previous_inverse_witness:
  "1 < length (tracks demo_player) \<and> current_index demo_player = Some 0 \<and>
   current_index (snd (previous_track quiet_mixer (snd (next_track quiet_mixer demo_player))))
     = Some 0 \<and>
   current_index (snd (next_track quiet_mixer (snd (previous_track quiet_mixer demo_player))))
     = Some 0"
proof -
  have h: "1 < length (tracks demo_player)" "current_index demo_player = Some 0"
    "(0::int) \<le> 0" "0 < int (length (tracks demo_player))"
    by (simp_all add: demo_player_def)
  from next_previous_inverse [OF h, of quiet_mixer quiet_mixer] h show ?thesis by blast
qed

subsection \<open>The lock\<close>




























subsection \<open>The playlist built at startup\<close>

lemma mset_glob_mp3:
  "mset (glob_mp3 d es) = image_mset (\<lambda>n. d @ [n]) (filter_mset (suffix ''.mp3'') (mset es))"
  by (simp add: glob_mp3_def)

lemma find_mp3_files_mset: "mset (find_mp3_files d es) = mset (glob_mp3 d es)"
  by (simp add: find_mp3_files_def)

lemma find_mp3_files_set:
  "set (find_mp3_files d es) = {d @ [n] | n. n \<in> set es \<and> suffix ''.mp3'' n}"
  by (auto simp add: find_mp3_files_def glob_mp3_def)

lemma find_mp3_files_sorted: "sorted (find_mp3_files d es)"
  by (simp add: find_mp3_files_def)

lemma find_mp3_files_listing_order:
  assumes "mset es' = mset es"
  shows "find_mp3_files d es' = find_mp3_files d es"
proof -
  from assms have "mset (glob_mp3 d es') = mset (glob_mp3 d es)"
    by (simp add: mset_glob_mp3)
  then have "mset (find_mp3_files d es) = mset (glob_mp3 d es')"
    by (simp add: find_mp3_files_mset)
  then have "sort (glob_mp3 d es') = find_mp3_files d es"
    using find_mp3_files_sorted by (rule properties_for_sort)
  then show ?thesis by (simp add: find_mp3_files_def)
qed

lemma init_tracks: "init mx d es lp = Inr p \<Longrightarrow> tracks p = find_mp3_files d es"
  by (auto simp add: init_def mixer_call_def emit_def Let_def split: if_splits)

text \<open>
  C10. The playlist \<^verbatim>\<open>find_mp3_files\<close> returns holds exactly the paths of the entries
  whose name ends in \<^verbatim>\<open>.mp3\<close>, each as often as the listing has it, in ascending
  order of the paths; it does not depend on the order in which the directory is listed.
  It is the playlist of the player \<^verbatim>\<open>__init__\<close> builds, so \<open>play(i)\<close> on that player
  loads the path at position \<open>i\<close> of the sorted list.
\<close>

theorem playlist_sorted_scan:
  "mset (find_mp3_files d es) = mset (glob_mp3 d es) \<and>
   set (find_mp3_files d es) = {d @ [n] | n. n \<in> set es \<and> suffix ''.mp3'' n} \<and>
   sorted (find_mp3_files d es) \<and>
   (mset es' = mset es \<longrightarrow> find_mp3_files d es' = find_mp3_files d es) \<and>
   (init mx d es lp = Inr p \<longrightarrow>
      tracks p = find_mp3_files d es \<and>
      (0 \<le> i \<and> i < int (length (find_mp3_files d es)) \<and>
       \<not> raises mx' (Load (find_mp3_files d es ! nat i)) \<and> \<not> raises mx' Play \<longrightarrow>
         play mx' (Some i) p =
           (None, p\<lparr>current_index := Some i, state := ''playing'',
              trace := trace p @
                [Acquire, Set_current_index (Some i),
                 Mixer (Load (find_mp3_files d es ! nat i)), Mixer Play,
                 Set_state ''playing'',
                 Print (''Playing: '' @ path_name (find_mp3_files d es ! nat i)),
                 Release]\<rparr>)))"
proof (intro conjI impI)
  show "mset (find_mp3_files d es) = mset (glob_mp3 d es)"
    by (rule find_mp3_files_mset)
  show "set (find_mp3_files d es) = {d @ [n] | n. n \<in> set es \<and> suffix ''.mp3'' n}"
    by (rule find_mp3_files_set)
  show "sorted (find_mp3_files d es)"
    by (rule find_mp3_files_sorted)
  show "find_mp3_files d es' = find_mp3_files d es" if "mset es' = mset es"
    using that by (rule find_mp3_files_listing_order)
  show "tracks p = find_mp3_files d es" if "init mx d es lp = Inr p"
    using that by (rule init_tracks)
  show "play mx' (Some i) p =
           (None, p\<lparr>current_index := Some i, state := ''playing'',
              trace := trace p @
                [Acquire, Set_current_index (Some i),
                 Mixer (Load (find_mp3_files d es ! nat i)), Mixer Play,
                 Set_state ''playing'',
                 Print (''Playing: '' @ path_name (find_mp3_files d es ! nat i)),
                 Release]\<rparr>)"
    if built: "init mx d es lp = Inr p"
      and valid: "0 \<le> i \<and> i < int (length (find_mp3_files d es)) \<and>
        \<not> raises mx' (Load (find_mp3_files d es ! nat i)) \<and> \<not> raises mx' Play"
  proof -
    from built have t: "tracks p = find_mp3_files d es" by (rule init_tracks)
    with valid show ?thesis using play_in_range [of i p mx'] by simp
  qed
qed

theorem playlist_sorted_scan_witness:
  "mset [''a.mp3'', ''notes.txt'', ''b.mp3''] = mset [''b.mp3'', ''notes.txt'', ''a.mp3''] \<and>
   find_mp3_files [''music''] [''a.mp3'', ''notes.txt'', ''b.mp3''] =
     find_mp3_files [''music''] [''b.mp3'', ''notes.txt'', ''a.mp3''] \<and>
   find_mp3_files [''music''] [''b.mp3'', ''notes.txt'', ''a.mp3''] =
     [[''music'', ''a.mp3''], [''music'', ''b.mp3'']] \<and>
   init quiet_mixer [''music''] [''b.mp3'', ''notes.txt'', ''a.mp3''] False =
     Inr \<lparr>tracks = [[''music'', ''a.mp3''], [''music'', ''b.mp3'']], loop = False,
          current_index = Some 0, state = ''stopped'', stop_event = False,
          trace = [Set_current_index (Some 0), Set_state ''stopped'', Mixer Init]\<rparr> \<and>
   play quiet_mixer (Some 1)
     \<lparr>tracks = [[''music'', ''a.mp3''], [''music'', ''b.mp3'']], loop = False,
      current_index = Some 0, state = ''stopped'', stop_event = False,
      trace = [Set_current_index (Some 0), Set_state ''stopped'', Mixer Init]\<rparr> =
     (None,
      \<lparr>tracks = [[''music'', ''a.mp3''], [''music'', ''b.mp3'']], loop = False,
       current_index = Some 1, state = ''playing'', stop_event = False,
       trace = [Set_current_index (Some 0), Set_state ''stopped'', Mixer Init, Acquire,
                Set_current_index (Some 1), Mixer (Load [''music'', ''b.mp3'']), Mixer Play,
                Set_state ''playing'', Print ''Playing: b.mp3'', Release]\<rparr>)"
proof -
  let ?es = "[''b.mp3'', ''notes.txt'', ''a.mp3'']"
  let ?p = "\<lparr>tracks = [[''music'', ''a.mp3''], [''music'', ''b.mp3'']], loop = False,
          current_index = Some 0, state = ''stopped'', stop_event = False,
          trace = [Set_current_index (Some 0), Set_state ''stopped'', Mixer Init]\<rparr>"
  have perm: "mset [''a.mp3'', ''notes.txt'', ''b.mp3''] = mset ?es"
    by simp
  have scan: "find_mp3_files [''music''] ?es = [[''music'', ''a.mp3''], [''music'', ''b.mp3'']]"
    by (simp add: find_mp3_files_def glob_mp3_def suffix_to_prefix)
  have built: "init quiet_mixer [''music''] ?es False = Inr ?p"
    by (simp add: init_def scan mixer_call_def emit_def quiet_mixer_def)
  have fine: "\<not> raises quiet_mixer (Load (find_mp3_files [''music''] ?es ! nat 1))"
    "\<not> raises quiet_mixer Play" "(0::int) \<le> 1"
    "1 < int (length (find_mp3_files [''music''] ?es))"
    by (simp_all add: quiet_mixer_def scan)
  note t = playlist_sorted_scan [where d = "[''music'']" and es = ?es
      and es' = "[''a.mp3'', ''notes.txt'', ''b.mp3'']" and mx = quiet_mixer and lp = False
      and p = ?p and i = 1 and mx' = quiet_mixer]
  from t perm have "find_mp3_files [''music''] [''a.mp3'', ''notes.txt'', ''b.mp3''] =
     find_mp3_files [''music''] ?es" by blast
  moreover from t built fine have "play quiet_mixer (Some 1) ?p =
      (None, ?p\<lparr>current_index := Some 1, state := ''playing'',
              trace := trace ?p @
                [Acquire, Set_current_index (Some 1),
                 Mixer (Load (find_mp3_files [''music''] ?es ! nat 1)), Mixer Play,
                 Set_state ''playing'',
                 Print (''Playing: '' @ path_name (find_mp3_files [''music''] ?es ! nat 1)),
                 Release]\<rparr>)" by blast
  ultimately show ?thesis using perm scan built by (simp add: path_name_def)
qed

end
